theory Spec2Isabelle
  imports Complex_Main "HOL-Library.Multiset"
begin

section \<open>Values\<close>

text \<open>
  Both stages handle decoded JSON: \<open>response.json()\<close> in \<open>extract.py\<close> and the
  documents read back from the raw collection in \<open>transform.py\<close>. A Python dict is an
  association list whose lookup is \<open>map_of\<close>; a Python \<open>int\<close> is an \<open>int\<close>, a finite
  Python \<open>float\<close> is the rational number it denotes.
\<close>

datatype json =
    JNull
  | JBool bool
  | JInt int
  | JFloat rat
  | JStr string
  | JArr "json list"
  | JObj "(string \<times> json) list"

type_synonym dict = "(string \<times> json) list"

text \<open>The exceptions the two scripts can meet.\<close>

datatype error =
    KeyError
  | TypeError
  | AttributeError
  | ValueError
  | ServerSelectionTimeoutError
  | PyMongoError

section \<open>Python operations on values\<close>

text \<open>Sequencing of steps that may raise: the first exception ends the computation.\<close>

definition ebind :: "error + 'a \<Rightarrow> ('a \<Rightarrow> error + 'b) \<Rightarrow> error + 'b" where
  "ebind x f = (case x of Inl e \<Rightarrow> Inl e | Inr v \<Rightarrow> f v)"

text \<open>Truth value of an object, as \<open>if x:\<close> and \<open>not x\<close> test it.\<close>

fun truthy :: "json \<Rightarrow> bool" where
  "truthy JNull = False"
| "truthy (JBool b) = b"
| "truthy (JInt i) = (i \<noteq> 0)"
| "truthy (JFloat r) = (r \<noteq> 0)"
| "truthy (JStr s) = (s \<noteq> [])"
| "truthy (JArr xs) = (xs \<noteq> [])"
| "truthy (JObj kvs) = (kvs \<noteq> [])"

text \<open>\<open>d.get(k, default)\<close>: only a dict has the method, every other value raises AttributeError.\<close>

fun py_get_d :: "json \<Rightarrow> string \<Rightarrow> json \<Rightarrow> error + json" where
  "py_get_d (JObj kvs) k dflt = Inr (case map_of kvs k of None \<Rightarrow> dflt | Some v \<Rightarrow> v)"
| "py_get_d _ k dflt = Inl AttributeError"

text \<open>\<open>d.get(k)\<close>: the default is None.\<close>

definition py_get :: "json \<Rightarrow> string \<Rightarrow> error + json" where
  "py_get d k = py_get_d d k JNull"

text \<open>\<open>d[k]\<close> with a string key: KeyError on a dict without the key, TypeError on anything else.\<close>

fun py_index :: "json \<Rightarrow> string \<Rightarrow> error + json" where
  "py_index (JObj kvs) k = (case map_of kvs k of None \<Rightarrow> Inl KeyError | Some v \<Rightarrow> Inr v)"
| "py_index _ k = Inl TypeError"

text \<open>
  \<open>x[0]\<close>: the first element of a list, the first character of a string, IndexError-free
  here because the caller has tested \<open>x\<close> for truth; a dict has no key \<open>0\<close> (its keys are
  strings), the remaining values are not subscriptable.
\<close>

fun py_index0 :: "json \<Rightarrow> error + json" where
  "py_index0 (JArr (x # xs)) = Inr x"
| "py_index0 (JStr (c # cs)) = Inr (JStr [c])"
| "py_index0 (JObj kvs) = Inl KeyError"
| "py_index0 _ = Inl TypeError"

text \<open>
  \<open>iter(x)\<close>: a list yields its elements, a dict its keys, a string its characters;
  None, booleans and numbers are not iterable.
\<close>

fun py_iter :: "json \<Rightarrow> error + json list" where
  "py_iter (JArr xs) = Inr xs"
| "py_iter (JObj kvs) = Inr (map (\<lambda>kv. JStr (fst kv)) kvs)"
| "py_iter (JStr s) = Inr (map (\<lambda>c. JStr [c]) s)"
| "py_iter _ = Inl TypeError"

text \<open>\<open>len(x)\<close>.\<close>

fun py_len :: "json \<Rightarrow> error + nat" where
  "py_len (JArr xs) = Inr (length xs)"
| "py_len (JObj kvs) = Inr (length kvs)"
| "py_len (JStr s) = Inr (length s)"
| "py_len _ = Inl TypeError"

text \<open>Lists and dicts cannot be members of a set: adding one raises TypeError.\<close>

fun hashable :: "json \<Rightarrow> bool" where
  "hashable (JArr xs) = False"
| "hashable (JObj kvs) = False"
| "hashable _ = True"

text \<open>
  Equality of hashable values, as a set decides membership: booleans, ints and floats
  compare by numeric value (\<open>True == 1 == 1.0\<close>), everything else structurally.
\<close>

fun num_val :: "json \<Rightarrow> rat option" where
  "num_val (JBool b) = Some (if b then 1 else 0)"
| "num_val (JInt i) = Some (of_int i)"
| "num_val (JFloat r) = Some r"
| "num_val _ = None"

definition py_eq :: "json \<Rightarrow> json \<Rightarrow> bool" where
  "py_eq a b =
     (case num_val a of
        Some x \<Rightarrow> (case num_val b of Some y \<Rightarrow> x = y | None \<Rightarrow> False)
      | None \<Rightarrow> (case num_val b of Some y \<Rightarrow> False | None \<Rightarrow> a = b))"

text \<open>
  A set under construction, in insertion order: \<open>s.add(u)\<close> keeps the element already
  there when an equal one arrives.
\<close>

definition set_add :: "json list \<Rightarrow> json \<Rightarrow> json list" where
  "set_add s u = (if list_ex (\<lambda>e. py_eq e u) s then s else s @ [u])"

text \<open>
  \<open>list(s)\<close>: the iteration order of a set is not specified (for strings it changes with
  the hash seed of the process). The seed is a sequence of choices: each one picks, among
  the elements not yet listed, the next to come; when the seed is used up the remaining
  elements follow in insertion order. Every order is the order of some seed.
\<close>

fun set_to_list :: "nat list \<Rightarrow> json list \<Rightarrow> json list" where
  "set_to_list ks [] = []"
| "set_to_list [] s = s"
| "set_to_list (k # ks) s =
     (let i = k mod length s
      in s ! i # set_to_list ks (take i s @ drop (Suc i) s))"

section \<open>transform.py: the projection of one record\<close>

text \<open>
  \<open>next((d.get("value") for d in ds if d.get("lang") == "en"), "")\<close>: the generator is
  consumed up to the first English entry only, so later entries are never looked at.
\<close>

fun first_en :: "json list \<Rightarrow> error + json" where
  "first_en [] = Inr (JStr [])"
| "first_en (d # ds) =
     ebind (py_get d ''lang'') (\<lambda>lang.
       if lang = JStr ''en'' then py_get d ''value'' else first_en ds)"

definition description_of :: "json \<Rightarrow> error + json" where
  "description_of cve =
     ebind (py_get_d cve ''descriptions'' (JArr [])) (\<lambda>ds.
     ebind (py_iter ds) first_en)"

text \<open>The values of the keys \<open>ks\<close> of \<open>d\<close>, read with \<open>d.get\<close> in this order.\<close>

fun get_fields :: "json \<Rightarrow> string list \<Rightarrow> error + dict" where
  "get_fields d [] = Inr []"
| "get_fields d (k # ks) =
     ebind (py_get d k) (\<lambda>v.
     ebind (get_fields d ks) (\<lambda>rest. Inr ((k, v) # rest)))"

definition cvss_keys :: "string list" where
  "cvss_keys = [''version'', ''vectorString'', ''baseScore'', ''accessVector'',
     ''accessComplexity'', ''authentication'', ''confidentialityImpact'',
     ''integrityImpact'', ''availabilityImpact'']"

definition metric_keys :: "string list" where
  "metric_keys = [''baseSeverity'', ''exploitabilityScore'', ''impactScore'',
     ''acInsufInfo'', ''obtainAllPrivilege'', ''obtainUserPrivilege'',
     ''obtainOtherPrivilege'', ''userInteractionRequired'']"

definition scoring_keys :: "string list" where
  "scoring_keys = ''type'' # cvss_keys @ metric_keys"

text \<open>The dict display of lines 88 to 107, built from the metric entry \<open>m\<close>.\<close>

definition flatten_metric :: "json \<Rightarrow> error + dict" where
  "flatten_metric m =
     ebind (py_get_d m ''cvssData'' (JObj [])) (\<lambda>cvss.
     ebind (get_fields m [''type'']) (\<lambda>a.
     ebind (get_fields cvss cvss_keys) (\<lambda>b.
     ebind (get_fields m metric_keys) (\<lambda>c.
     Inr (a @ b @ c)))))"

definition metrics_of :: "json \<Rightarrow> error + dict" where
  "metrics_of cve =
     ebind (py_get_d cve ''metrics'' (JObj [])) (\<lambda>metrics.
     ebind (py_get_d metrics ''cvssMetricV2'' (JArr [])) (\<lambda>metrics_data.
       if truthy metrics_data
       then ebind (py_index0 metrics_data) flatten_metric
       else Inr []))"

fun weaknesses_loop :: "json list \<Rightarrow> json list \<Rightarrow> error + json list" where
  "weaknesses_loop weaknesses_list [] = Inr weaknesses_list"
| "weaknesses_loop weaknesses_list (w # ws) =
     ebind (py_get w ''type'') (\<lambda>wtype.
     ebind (py_get_d w ''description'' (JArr [])) (\<lambda>ds.
     ebind (py_iter ds) (\<lambda>it.
     ebind (first_en it) (\<lambda>desc_en.
     weaknesses_loop
       (weaknesses_list @ [JObj [(''type'', wtype), (''description'', desc_en)]]) ws))))"

definition weaknesses_of :: "json \<Rightarrow> error + json list" where
  "weaknesses_of cve =
     ebind (py_get_d cve ''weaknesses'' (JArr [])) (\<lambda>ws.
     ebind (py_iter ws) (weaknesses_loop []))"

text \<open>
  The set comprehension of line 117: an entry is kept when \<open>ref.get("url")\<close> is truthy,
  and its URL is added to the set \<open>s\<close>.
\<close>

fun collect_urls :: "json list \<Rightarrow> json list \<Rightarrow> error + json list" where
  "collect_urls s [] = Inr s"
| "collect_urls s (ref # refs) =
     ebind (py_get ref ''url'') (\<lambda>u.
       if truthy u
       then (if hashable u then collect_urls (set_add s u) refs else Inl TypeError)
       else collect_urls s refs)"

definition references_of :: "nat list \<Rightarrow> json \<Rightarrow> error + json list" where
  "references_of seed cve =
     ebind (py_get_d cve ''references'' (JArr [])) (\<lambda>rs.
     ebind (py_iter rs) (\<lambda>refs.
     ebind (collect_urls [] refs) (\<lambda>s.
     Inr (set_to_list seed s))))"

text \<open>
  The body of the inner \<open>try\<close> (lines 75 to 131) for one entry of the raw sequence;
  \<open>now\<close> is what \<open>datetime.utcnow().isoformat()\<close> returns for this entry.
\<close>

definition ident_keys :: "string list" where
  "ident_keys = [''id'', ''sourceIdentifier'', ''published'', ''lastModified'', ''vulnStatus'']"

definition transform_record :: "nat list \<Rightarrow> string \<Rightarrow> json \<Rightarrow> error + dict" where
  "transform_record seed now vuln_item =
     ebind (py_index vuln_item ''cve'') (\<lambda>cve.
     ebind (description_of cve) (\<lambda>description.
     ebind (metrics_of cve) (\<lambda>metrics_transformed.
     ebind (weaknesses_of cve) (\<lambda>weaknesses_list.
     ebind (references_of seed cve) (\<lambda>references.
     ebind (get_fields cve ident_keys) (\<lambda>ident.
     Inr (ident @ [(''description'', description)] @ metrics_transformed @
          [(''weaknesses'', JArr weaknesses_list),
           (''references'', JArr references),
           (''collected_at'', JStr now)])))))))"

section \<open>Logging and the document store\<close>

datatype level = INFO | WARNING | ERROR

text \<open>One constructor for each message the two scripts log, with the values it formats.\<close>

datatype message =
    LoadedEnvironment
  | FailedToLoadEnvironment error
  | ConnectedToMongo
  | ConnectionFailed error
  | ClearedExisting nat
  | FailedToClear error
  | LoadedRawData nat
  | FailedToLoadRawData error
  | FailedToTransformRecord error
  | TransformedCount nat
  | TransformationFailed error
  | InsertedCount nat
  | NoVulnerabilitiesToInsert
  | FailedToInsert error
  | TransformationDone
  | Traceback error
  | Fetching
  | FetchedStatus nat
  | ErrorFetching
  | EnvNotSet
  | ConnectingToMongo
  | ClearingExisting
  | FormatNotSupported
  | DataInserted
  | MongoError error
  | NoDataFetched

type_synonym entry = "level \<times> message"

text \<open>
  What the scripts see of their surroundings: the two settings read by \<open>os.getenv\<close>,
  whether the server answers \<open>server_info()\<close> in time, and whether \<open>delete_many\<close> and
  the insertion succeed (a failing call changes nothing in the collection).
\<close>

record mongo_env =
  mongo_url :: "string option"
  mongo_db :: "string option"
  server_reachable :: bool
  delete_ok :: bool
  insert_ok :: bool

text \<open>\<open>not MONGO_URL\<close>: the variable is unset or empty.\<close>

definition unset :: "string option \<Rightarrow> bool" where
  "unset v = (case v of None \<Rightarrow> True | Some s \<Rightarrow> s = [])"

text \<open>
  The end of a run: the exception that left the script (None when it ran to its end),
  the contents of the collection it writes, and the lines logged.
\<close>

record outcome =
  raised :: "error option"
  collection :: "dict list"
  logged :: "entry list"

section \<open>transform.py: the run\<close>

text \<open>
  The loop of lines 73 to 136 over the entries, entry \<open>i\<close> being stamped \<open>clock i\<close>.
  A failing entry logs its two warnings (message and traceback) and adds no record.
\<close>

fun transform_loop ::
  "nat list \<Rightarrow> (nat \<Rightarrow> string) \<Rightarrow> nat \<Rightarrow> json list \<Rightarrow> dict list \<times> entry list
     \<Rightarrow> dict list \<times> entry list" where
  "transform_loop seed clock i [] st = st"
| "transform_loop seed clock i (vuln_item # rest) (vulnerabilities, lg) =
     (case transform_record seed (clock i) vuln_item of
        Inr transformed_vuln \<Rightarrow>
          transform_loop seed clock (Suc i) rest (vulnerabilities @ [transformed_vuln], lg)
      | Inl inner_e \<Rightarrow>
          transform_loop seed clock (Suc i) rest
            (vulnerabilities,
             lg @ [(WARNING, FailedToTransformRecord inner_e), (WARNING, Traceback inner_e)]))"

text \<open>\<open>find_one()\<close>: the first document of the collection, None when it is empty.\<close>

definition find_one :: "dict list \<Rightarrow> dict option" where
  "find_one coll = (case coll of [] \<Rightarrow> None | d # ds \<Rightarrow> Some d)"

text \<open>
  Lines 61 to 64: the value under \<open>vulnerabilities\<close> of the raw document and its length
  (which the log line formats, so a value without a length raises here).
\<close>

definition load_raw :: "dict list \<Rightarrow> error + json \<times> nat" where
  "load_raw raw_collection =
     (case find_one raw_collection of
        None \<Rightarrow> Inl ValueError
      | Some raw_data \<Rightarrow>
          if raw_data = [] \<or> map_of raw_data ''vulnerabilities'' = None
          then Inl ValueError
          else ebind (py_get_d (JObj raw_data) ''vulnerabilities'' (JArr [])) (\<lambda>v.
               ebind (py_len v) (\<lambda>n. Inr (v, n))))"

text \<open>
  Lines 145 to 156, storing the records \<open>vulnerabilities\<close> into the normalized
  collection, whose contents at that point are \<open>normalized\<close>.
\<close>

definition store_transformed ::
  "mongo_env \<Rightarrow> dict list \<Rightarrow> dict list \<Rightarrow> entry list \<Rightarrow> outcome" where
  "store_transformed env normalized vulnerabilities lg =
     (if vulnerabilities \<noteq> []
      then (if insert_ok env
            then \<lparr>raised = None, collection = normalized @ vulnerabilities,
                  logged = lg @ [(INFO, InsertedCount (length vulnerabilities)),
                                 (INFO, TransformationDone)]\<rparr>
            else \<lparr>raised = Some PyMongoError, collection = normalized,
                  logged = lg @ [(ERROR, FailedToInsert PyMongoError),
                                 (ERROR, Traceback PyMongoError)]\<rparr>)
      else \<lparr>raised = None, collection = normalized,
            logged = lg @ [(WARNING, NoVulnerabilitiesToInsert), (INFO, TransformationDone)]\<rparr>)"

text \<open>
  Lines 71 to 142, on the value \<open>v\<close> found under \<open>vulnerabilities\<close>: a value that
  cannot be iterated raises outside the inner \<open>try\<close> and ends the run.
\<close>

definition transform_data ::
  "mongo_env \<Rightarrow> nat list \<Rightarrow> (nat \<Rightarrow> string) \<Rightarrow> dict list \<Rightarrow> json \<Rightarrow> entry list \<Rightarrow> outcome" where
  "transform_data env seed clock normalized v lg =
     (case py_iter v of
        Inl e \<Rightarrow>
          \<lparr>raised = Some e, collection = normalized,
           logged = lg @ [(ERROR, TransformationFailed e), (ERROR, Traceback e)]\<rparr>
      | Inr items \<Rightarrow>
          (case transform_loop seed clock 0 items ([], lg) of
             (vulnerabilities, lg5) \<Rightarrow>
               store_transformed env normalized vulnerabilities
                 (lg5 @ [(INFO, TransformedCount (length vulnerabilities))])))"

text \<open>Lines 60 to 68, then the rest of the script.\<close>

definition load_and_transform ::
  "mongo_env \<Rightarrow> nat list \<Rightarrow> (nat \<Rightarrow> string) \<Rightarrow> dict list \<Rightarrow> dict list \<Rightarrow> entry list \<Rightarrow> outcome" where
  "load_and_transform env seed clock raw_collection normalized lg =
     (case load_raw raw_collection of
        Inl e \<Rightarrow>
          \<lparr>raised = Some e, collection = normalized,
           logged = lg @ [(ERROR, FailedToLoadRawData e), (ERROR, Traceback e)]\<rparr>
      | Inr (v, n) \<Rightarrow>
          transform_data env seed clock normalized v (lg @ [(INFO, LoadedRawData n)]))"

text \<open>
  The whole script, from the raw collection \<open>raw_collection\<close> and the previous contents
  \<open>old\<close> of the normalized collection: environment, connection, clearing (a failure to
  clear is logged and the run goes on), then loading, transforming and storing.
\<close>

definition run_transform ::
  "mongo_env \<Rightarrow> nat list \<Rightarrow> (nat \<Rightarrow> string) \<Rightarrow> dict list \<Rightarrow> dict list \<Rightarrow> outcome" where
  "run_transform env seed clock raw_collection old =
     (if unset (mongo_url env) \<or> unset (mongo_db env)
      then \<lparr>raised = Some ValueError, collection = old,
            logged = [(ERROR, FailedToLoadEnvironment ValueError), (ERROR, Traceback ValueError)]\<rparr>
      else if \<not> server_reachable env
      then \<lparr>raised = Some ServerSelectionTimeoutError, collection = old,
            logged = [(INFO, LoadedEnvironment),
                      (ERROR, ConnectionFailed ServerSelectionTimeoutError),
                      (ERROR, Traceback ServerSelectionTimeoutError)]\<rparr>
      else if delete_ok env
      then load_and_transform env seed clock raw_collection []
             [(INFO, LoadedEnvironment), (INFO, ConnectedToMongo),
              (INFO, ClearedExisting (length old))]
      else load_and_transform env seed clock raw_collection old
             [(INFO, LoadedEnvironment), (INFO, ConnectedToMongo),
              (ERROR, FailedToClear PyMongoError), (ERROR, Traceback PyMongoError)])"

section \<open>extract.py\<close>

text \<open>
  What \<open>requests.get\<close> meets: no response at all (connection error, timeout), or a
  response with its status code and, when the body decodes, the decoded JSON.
\<close>

datatype http_outcome = NoResponse | Response nat "json option"

text \<open>
  \<open>fetch_cve_data\<close>: \<open>raise_for_status\<close> raises on a 4xx or 5xx status and
  \<open>response.json()\<close> on a body that is not JSON; both are request exceptions and give None.
\<close>

definition fetch_cve_data :: "http_outcome \<Rightarrow> json option \<times> entry list" where
  "fetch_cve_data http =
     (case http of
        NoResponse \<Rightarrow> (None, [(INFO, Fetching), (ERROR, ErrorFetching)])
      | Response code body \<Rightarrow>
          if 400 \<le> code \<and> code < 600
          then (None, [(INFO, Fetching), (ERROR, ErrorFetching)])
          else (case body of
                  None \<Rightarrow> (None, [(INFO, Fetching), (INFO, FetchedStatus code), (ERROR, ErrorFetching)])
                | Some data \<Rightarrow> (Some data, [(INFO, Fetching), (INFO, FetchedStatus code)])))"

text \<open>A document handed to the driver for insertion has to be a dict.\<close>

fun as_document :: "json \<Rightarrow> dict option" where
  "as_document (JObj kvs) = Some kvs"
| "as_document _ = None"

text \<open>
  \<open>insert_many(docs)\<close>: the driver raises TypeError, before it sends anything, on an
  empty list and on an element that is not a document.
\<close>

definition insert_many :: "json list \<Rightarrow> error + dict list" where
  "insert_many docs =
     (if docs = [] \<or> list_ex (\<lambda>d. as_document d = None) docs then Inl TypeError
      else Inr (map (\<lambda>d. case d of JObj kvs \<Rightarrow> kvs | _ \<Rightarrow> []) docs))"

text \<open>
  \<open>save_to_mongo\<close>, from the payload and the previous contents \<open>old\<close> of the raw
  collection. The \<open>except\<close> clause catches the driver's own errors only, so the
  TypeError of \<open>insert_many\<close> leaves the function.
\<close>

definition save_to_mongo :: "mongo_env \<Rightarrow> json \<Rightarrow> dict list \<Rightarrow> outcome" where
  "save_to_mongo env data old =
     (if unset (mongo_url env) \<or> unset (mongo_db env)
      then \<lparr>raised = None, collection = old, logged = [(ERROR, EnvNotSet)]\<rparr>
      else if \<not> server_reachable env
      then \<lparr>raised = None, collection = old,
            logged = [(INFO, ConnectingToMongo), (ERROR, MongoError ServerSelectionTimeoutError)]\<rparr>
      else if \<not> delete_ok env
      then \<lparr>raised = None, collection = old,
            logged = [(INFO, ConnectingToMongo), (INFO, ClearingExisting),
                      (ERROR, MongoError PyMongoError)]\<rparr>
      else
        let lg = [(INFO, ConnectingToMongo), (INFO, ClearingExisting)]
        in case data of
             JObj kvs \<Rightarrow>
               if insert_ok env
               then \<lparr>raised = None, collection = [kvs], logged = lg @ [(INFO, DataInserted)]\<rparr>
               else \<lparr>raised = None, collection = [],
                     logged = lg @ [(ERROR, MongoError PyMongoError)]\<rparr>
           | JArr docs \<Rightarrow>
               (case insert_many docs of
                  Inl e \<Rightarrow> \<lparr>raised = Some e, collection = [], logged = lg\<rparr>
                | Inr ds \<Rightarrow>
                    if insert_ok env
                    then \<lparr>raised = None, collection = ds, logged = lg @ [(INFO, DataInserted)]\<rparr>
                    else \<lparr>raised = None, collection = [],
                          logged = lg @ [(ERROR, MongoError PyMongoError)]\<rparr>)
           | _ \<Rightarrow>
               \<lparr>raised = None, collection = [], logged = lg @ [(ERROR, FormatNotSupported)]\<rparr>)"

text \<open>\<open>main\<close>: the fetch, then the save when the payload is truthy.\<close>

definition main :: "mongo_env \<Rightarrow> http_outcome \<Rightarrow> dict list \<Rightarrow> outcome" where
  "main env http old =
     (case fetch_cve_data http of
        (fetched, lg) \<Rightarrow>
          (case fetched of
             Some data \<Rightarrow>
               if truthy data
               then (let out = save_to_mongo env data old
                     in out\<lparr>logged := lg @ logged out\<rparr>)
               else \<lparr>raised = None, collection = old, logged = lg @ [(ERROR, NoDataFetched)]\<rparr>
           | None \<Rightarrow>
               \<lparr>raised = None, collection = old, logged = lg @ [(ERROR, NoDataFetched)]\<rparr>))"

section \<open>Notions used by the properties\<close>

text \<open>
  An entry of the raw sequence raises a projection error when the body of the inner
  \<open>try\<close> raises on it; whether it does depends neither on the hash seed nor on the clock
  (lemma \<open>transform_record_isl\<close> below).
\<close>

definition projection_fails :: "json \<Rightarrow> bool" where
  "projection_fails vuln_item = isl (transform_record [] [] vuln_item)"

fun is_warning :: "entry \<Rightarrow> bool" where
  "is_warning (lv, m) = (lv = WARNING)"

definition warnings :: "entry list \<Rightarrow> entry list" where
  "warnings lg = filter is_warning lg"

text \<open>The record the loop adds for entry number \<open>j\<close>, if it adds one.\<close>

fun projected :: "nat list \<Rightarrow> (nat \<Rightarrow> string) \<Rightarrow> nat \<times> json \<Rightarrow> dict option" where
  "projected seed clock (j, vuln_item) =
     (case transform_record seed (clock j) vuln_item of Inr r \<Rightarrow> Some r | Inl e \<Rightarrow> None)"

text \<open>A description entry whose language tag is English.\<close>

definition is_en :: "json \<Rightarrow> bool" where
  "is_en d = (py_get d ''lang'' = Inr (JStr ''en''))"

text \<open>No two members of the list are equal in Python's sense.\<close>

fun py_distinct :: "json list \<Rightarrow> bool" where
  "py_distinct [] = True"
| "py_distinct (x # xs) = (\<not> list_ex (\<lambda>e. py_eq x e) xs \<and> py_distinct xs)"

text \<open>
  Two output records are the same up to what a run is free to choose: the timestamp
  under \<open>collected_at\<close> and the order in which the set of references is listed.
\<close>

fun same_members :: "json \<Rightarrow> json \<Rightarrow> bool" where
  "same_members (JArr a) (JArr b) = (mset a = mset b)"
| "same_members v1 v2 = (v1 = v2)"

fun same_field :: "string \<times> json \<Rightarrow> string \<times> json \<Rightarrow> bool" where
  "same_field (k1, v1) (k2, v2) =
     (k1 = k2 \<and>
      (if k1 = ''collected_at'' then True
       else if k1 = ''references'' then same_members v1 v2
       else v1 = v2))"

definition same_record :: "dict \<Rightarrow> dict \<Rightarrow> bool" where
  "same_record r1 r2 = list_all2 same_field r1 r2"

text \<open>Sample surroundings and inputs, used to instantiate the properties.\<close>

definition epoch_clock :: "nat \<Rightarrow> string" where
  "epoch_clock i = ''1970-01-01T00:00:00''"

definition later_clock :: "nat \<Rightarrow> string" where
  "later_clock i = ''2024-01-01T00:00:00''"

definition working_env :: mongo_env where
  "working_env = \<lparr>mongo_url = Some ''mongodb://localhost'', mongo_db = Some ''nvd'',
     server_reachable = True, delete_ok = True, insert_ok = True\<rparr>"

definition sample_cve :: json where
  "sample_cve = JObj [(''id'', JStr ''CVE-1999-0001''),
     (''descriptions'', JArr [JObj [(''lang'', JStr ''fr''), (''value'', JStr ''desc-fr'')],
                              JObj [(''lang'', JStr ''en''), (''value'', JStr ''desc-en'')]]),
     (''metrics'', JObj [(''cvssMetricV2'',
        JArr [JObj [(''type'', JStr ''Primary''), (''baseSeverity'', JStr ''HIGH''),
                    (''cvssData'', JObj [(''version'', JStr ''2.0'')])],
              JObj [(''type'', JStr ''Secondary'')]])]),
     (''weaknesses'', JArr [JObj [(''type'', JStr ''CWE-79''),
        (''description'', JArr [JObj [(''lang'', JStr ''en''), (''value'', JStr ''XSS'')]])]]),
     (''references'', JArr [JObj [(''url'', JStr ''http://a'')], JObj [(''url'', JStr ''http://a'')],
                            JObj [], JObj [(''url'', JStr ''http://b'')]])]"

definition sample_item :: json where
  "sample_item = JObj [(''cve'', sample_cve)]"

definition bare_cve :: json where
  "bare_cve = JObj [(''id'', JStr ''CVE-1999-0002''),
     (''descriptions'', JArr [JObj [(''lang'', JStr ''es''), (''value'', JStr ''desc-es'')]])]"

definition bare_item :: json where
  "bare_item = JObj [(''cve'', bare_cve)]"

text \<open>A record whose first English description has no \<open>value\<close>.\<close>

definition valueless_cve :: json where
  "valueless_cve = JObj [(''descriptions'',
     JArr [JObj [(''lang'', JStr ''en'')],
           JObj [(''lang'', JStr ''en''), (''value'', JStr ''later'')]])]"

definition valueless_item :: json where
  "valueless_item = JObj [(''cve'', valueless_cve)]"

text \<open>A record with a reference whose URL is the empty string.\<close>

definition empty_url_cve :: json where
  "empty_url_cve = JObj [(''references'',
     JArr [JObj [(''url'', JStr ''http://a'')], JObj [(''url'', JStr [])],
           JObj [(''url'', JStr ''http://b'')]])]"

definition empty_url_item :: json where
  "empty_url_item = JObj [(''cve'', empty_url_cve)]"


text \<open>Contents of the raw collection: one document, with a good and a malformed entry.\<close>

definition old_raw :: "dict list" where
  "old_raw = [ [(''vulnerabilities'', JArr [sample_item])]]"

definition sample_raw :: "dict list" where
  "sample_raw = [ [(''vulnerabilities'', JArr [sample_item, JNull])]]"

section \<open>Auxiliary facts\<close>

lemma ebind_simps [simp]: "ebind (Inl e) f = Inl e" "ebind (Inr v) f = f v"
  by (simp_all add: ebind_def)

lemma ebind_Inr: "ebind x f = Inr y \<longleftrightarrow> (\<exists>v. x = Inr v \<and> f v = Inr y)"
  by (cases x) simp_all

lemma isl_iff: "isl x \<longleftrightarrow> \<not> (\<exists>y. x = Inr y)"
  by (cases x) simp_all

lemma ex_Inr_ebind: "(\<exists>y. ebind x f = Inr y) \<longleftrightarrow> (\<exists>v. x = Inr v \<and> (\<exists>y. f v = Inr y))"
  by (cases x) simp_all

lemma set_to_list_Nil [simp]: "set_to_list [] s = s"
  by (cases s) simp_all

lemma references_of_seed:
  "references_of seed cve =
     (case references_of [] cve of Inl e \<Rightarrow> Inl e | Inr s \<Rightarrow> Inr (set_to_list seed s))"
  by (simp add: references_of_def ebind_def split: sum.splits)

lemma references_of_ok:
  "(\<exists>y. references_of seed cve = Inr y) \<longleftrightarrow> (\<exists>y. references_of [] cve = Inr y)"
  by (simp add: references_of_seed [of seed] split: sum.splits)

lemma transform_record_ok:
  "(\<exists>r. transform_record seed now vuln_item = Inr r) \<longleftrightarrow>
   (\<exists>cve. py_index vuln_item ''cve'' = Inr cve \<and>
      (\<exists>y. description_of cve = Inr y) \<and> (\<exists>y. metrics_of cve = Inr y) \<and>
      (\<exists>y. weaknesses_of cve = Inr y) \<and> (\<exists>y. references_of [] cve = Inr y) \<and>
      (\<exists>y. get_fields cve ident_keys = Inr y))"
  unfolding transform_record_def ex_Inr_ebind
  using references_of_ok [of seed] by simp

lemma transform_record_isl:
  "isl (transform_record seed now vuln_item) = projection_fails vuln_item"
  unfolding projection_fails_def isl_iff transform_record_ok ..

lemma transform_loop_acc:
  "transform_loop seed clock i items (vs0, lg0) =
     (vs0 @ fst (transform_loop seed clock i items ([], [])),
      lg0 @ snd (transform_loop seed clock i items ([], [])))"
proof (induction items arbitrary: i vs0 lg0)
  case Nil
  show ?case by simp
next
  case (Cons a items)
  show ?case
  proof (cases "transform_record seed (clock i) a")
    case (Inl e)
    then show ?thesis
      using Cons.IH [of "Suc i" vs0 "lg0 @ [(WARNING, FailedToTransformRecord e), (WARNING, Traceback e)]"]
            Cons.IH [of "Suc i" "[]" "[(WARNING, FailedToTransformRecord e), (WARNING, Traceback e)]"]
      by simp
  next
    case (Inr r)
    then show ?thesis
      using Cons.IH [of "Suc i" "vs0 @ [r]" lg0] Cons.IH [of "Suc i" "[r]" "[]"]
      by simp
  qed
qed

lemma transform_loop_Cons_fail:
  "transform_record seed (clock i) a = Inl e \<Longrightarrow>
   transform_loop seed clock i (a # items) ([], []) =
     (fst (transform_loop seed clock (Suc i) items ([], [])),
      (WARNING, FailedToTransformRecord e) # (WARNING, Traceback e) #
        snd (transform_loop seed clock (Suc i) items ([], [])))"
  using transform_loop_acc [of seed clock "Suc i" items "[]"
          "[(WARNING, FailedToTransformRecord e), (WARNING, Traceback e)]"]
  by simp

lemma transform_loop_Cons_ok:
  "transform_record seed (clock i) a = Inr r \<Longrightarrow>
   transform_loop seed clock i (a # items) ([], []) =
     (r # fst (transform_loop seed clock (Suc i) items ([], [])),
      snd (transform_loop seed clock (Suc i) items ([], [])))"
  using transform_loop_acc [of seed clock "Suc i" items "[r]" "[]"]
  by simp

lemma transform_loop_counts:
  "length (fst (transform_loop seed clock i items ([], []))) + length (filter projection_fails items)
     = length items
   \<and> length (snd (transform_loop seed clock i items ([], [])))
     = 2 * length (filter projection_fails items)
   \<and> warnings (snd (transform_loop seed clock i items ([], [])))
     = snd (transform_loop seed clock i items ([], []))"
proof (induction items arbitrary: i)
  case Nil
  show ?case by (simp add: warnings_def)
next
  case (Cons a items)
  show ?case
  proof (cases "transform_record seed (clock i) a")
    case (Inl e)
    then have "projection_fails a"
      using transform_record_isl [of seed "clock i" a] by simp
    then show ?thesis
      using Cons.IH [of "Suc i"] transform_loop_Cons_fail [of seed clock i a e items] Inl
      by (simp add: warnings_def del: transform_loop.simps)
  next
    case (Inr r)
    then have "\<not> projection_fails a"
      using transform_record_isl [of seed "clock i" a] by simp
    then show ?thesis
      using Cons.IH [of "Suc i"] transform_loop_Cons_ok [of seed clock i a r items] Inr
      by (simp add: warnings_def del: transform_loop.simps)
  qed
qed

lemma transform_loop_records:
  "fst (transform_loop seed clock i items ([], []))
     = List.map_filter (projected seed clock) (List.enumerate i items)"
proof (induction items arbitrary: i)
  case Nil
  show ?case by (simp add: List.map_filter_simps)
next
  case (Cons a items)
  show ?case
  proof (cases "transform_record seed (clock i) a")
    case (Inl e)
    then show ?thesis
      using Cons.IH [of "Suc i"] transform_loop_Cons_fail [of seed clock i a e items]
      by (simp add: List.map_filter_simps del: transform_loop.simps)
  next
    case (Inr r)
    then show ?thesis
      using Cons.IH [of "Suc i"] transform_loop_Cons_ok [of seed clock i a r items]
      by (simp add: List.map_filter_simps del: transform_loop.simps)
  qed
qed

section \<open>Fault isolation in the transform loop\<close>

text \<open>
  Claim C1, as the specification words it, promises one logged warning for each failing
  entry. The loop logs two: on the single failing entry \<open>None\<close> the log holds two
  warnings, the failure message and its traceback.
\<close>

theorem one_warning_per_failure_counterexample:
  "length (warnings (snd (transform_loop [] epoch_clock 0 [JNull] ([], []))))
     \<noteq> length (filter projection_fails [JNull])"
  by (simp add: warnings_def projection_fails_def transform_record_def)

text \<open>
  Claim C1, amended: of the \<open>N\<close> entries of the raw sequence, the \<open>M\<close> that raise a
  projection error add no record and two warnings each (message and traceback), and the
  loop goes on: it produces exactly \<open>N - M\<close> records, which are the complete projections
  of the other entries, in order, and it logs nothing but these \<open>2 * M\<close> warnings.
\<close>

theorem transform_loop_skips_failures:
  "length (fst (transform_loop seed clock 0 items ([], [])))
     = length items - length (filter projection_fails items)
   \<and> fst (transform_loop seed clock 0 items ([], []))
     = List.map_filter (projected seed clock) (List.enumerate 0 items)
   \<and> warnings (snd (transform_loop seed clock 0 items ([], [])))
     = snd (transform_loop seed clock 0 items ([], []))
   \<and> length (warnings (snd (transform_loop seed clock 0 items ([], []))))
     = 2 * length (filter projection_fails items)"
proof -
  have counts:
    "length (fst (transform_loop seed clock 0 items ([], [])))
       + length (filter projection_fails items) = length items"
    "length (snd (transform_loop seed clock 0 items ([], [])))
       = 2 * length (filter projection_fails items)"
    "warnings (snd (transform_loop seed clock 0 items ([], [])))
       = snd (transform_loop seed clock 0 items ([], []))"
    using transform_loop_counts [of seed clock 0 items] by blast+
  from counts(1) have
    "length (fst (transform_loop seed clock 0 items ([], [])))
       = length items - length (filter projection_fails items)"
    by arith
  with counts(2,3) transform_loop_records [of seed clock 0 items]
  show ?thesis by presburger
qed

section \<open>The shape of an output record\<close>

lemma map_of_append_notin: "k \<notin> fst ` set xs \<Longrightarrow> map_of (xs @ ys) k = map_of ys k"
  by (induction xs) auto


lemma get_fields_keys: "get_fields d ks = Inr fs \<Longrightarrow> map fst fs = ks"
  by (induction ks arbitrary: fs) (auto simp: ebind_Inr)

lemma flatten_metric_keys: "flatten_metric m = Inr flds \<Longrightarrow> map fst flds = scoring_keys"
  by (auto simp: flatten_metric_def ebind_Inr scoring_keys_def dest!: get_fields_keys)

lemma metrics_of_cases:
  assumes "metrics_of cve = Inr mt"
  shows "mt = [] \<or> map fst mt = scoring_keys"
  using assms
  by (auto simp: metrics_of_def ebind_Inr split: if_splits dest: flatten_metric_keys)

lemma transform_record_InrD:
  assumes "transform_record seed now vuln_item = Inr r"
  shows "\<exists>cve d mt w s ident.
     py_index vuln_item ''cve'' = Inr cve \<and> description_of cve = Inr d \<and>
     metrics_of cve = Inr mt \<and> weaknesses_of cve = Inr w \<and>
     references_of [] cve = Inr s \<and> get_fields cve ident_keys = Inr ident \<and>
     r = ident @ [(''description'', d)] @ mt @
         [(''weaknesses'', JArr w), (''references'', JArr (set_to_list seed s)),
          (''collected_at'', JStr now)]"
proof -
  from assms obtain cve d mt w rs ident where
    a: "py_index vuln_item ''cve'' = Inr cve" "description_of cve = Inr d"
       "metrics_of cve = Inr mt" "weaknesses_of cve = Inr w"
       "references_of seed cve = Inr rs" "get_fields cve ident_keys = Inr ident"
    and r: "r = ident @ [(''description'', d)] @ mt @
         [(''weaknesses'', JArr w), (''references'', JArr rs), (''collected_at'', JStr now)]"
    unfolding transform_record_def ebind_Inr by auto
  from a(5) obtain s where "references_of [] cve = Inr s" "rs = set_to_list seed s"
    using references_of_seed [of seed cve] by (cases "references_of [] cve") simp_all
  with a r show ?thesis by blast
qed

lemma scoring_keys_fresh:
  "k \<in> set scoring_keys \<Longrightarrow>
     k \<notin> set ident_keys \<and> k \<noteq> ''description'' \<and> k \<noteq> ''weaknesses'' \<and>
     k \<noteq> ''references'' \<and> k \<noteq> ''collected_at''"
  by (auto simp: scoring_keys_def cvss_keys_def metric_keys_def ident_keys_def)

lemma record_description:
  assumes "get_fields cve ident_keys = Inr ident"
  shows "map_of (ident @ [(''description'', d)] @ rest) ''description'' = Some d"
proof -
  have "''description'' \<notin> set (map fst ident)"
    using get_fields_keys [OF assms] by (simp add: ident_keys_def)
  then show ?thesis by (simp add: map_of_append_notin del: map_of_append)
qed

lemma transform_record_description:
  assumes "transform_record seed now vuln_item = Inr r"
      and "py_index vuln_item ''cve'' = Inr cve"
  shows "\<exists>d. description_of cve = Inr d \<and> map_of r ''description'' = Some d"
  using transform_record_InrD [OF assms(1)] assms(2) record_description by fastforce

lemma first_en_first:
  "\<forall>x\<in>set pre. \<not> is_en x \<Longrightarrow> is_en d \<Longrightarrow> first_en (pre @ d # post) = Inr v
     \<Longrightarrow> py_get d ''value'' = Inr v"
  by (induction pre) (auto simp: is_en_def ebind_Inr split: if_splits)

lemma first_en_none:
  "\<forall>x\<in>set ds. \<not> is_en x \<Longrightarrow> first_en ds = Inr v \<Longrightarrow> v = JStr []"
  by (induction ds) (auto simp: is_en_def ebind_Inr split: if_splits)

lemma description_of_list:
  "py_get_d cve ''descriptions'' (JArr []) = Inr (JArr ds) \<Longrightarrow> description_of cve = first_en ds"
  by (simp add: description_of_def)

section \<open>The description\<close>

text \<open>
  Claim C2: for every source record that has an output record, if its list of
  descriptions has an entry tagged \<open>en\<close>, the output \<open>description\<close> is the value of the
  first such entry, whatever non-English entries stand before it (\<open>pre\<close>) and whatever
  entries stand after it (\<open>post\<close>); if no entry is tagged \<open>en\<close>, the output
  \<open>description\<close> is the empty string. An absent \<open>descriptions\<close> key counts as the
  empty list.
\<close>

theorem description_is_first_english:
  assumes "transform_record seed now vuln_item = Inr r"
      and "py_index vuln_item ''cve'' = Inr cve"
      and "py_get_d cve ''descriptions'' (JArr []) = Inr (JArr ds)"
  shows "(ds = pre @ d # post \<and> (\<forall>x\<in>set pre. \<not> is_en x) \<and> is_en d
            \<longrightarrow> (\<exists>v. py_get d ''value'' = Inr v \<and> map_of r ''description'' = Some v))
       \<and> ((\<forall>x\<in>set ds. \<not> is_en x) \<longrightarrow> map_of r ''description'' = Some (JStr []))"
proof -
  from transform_record_description [OF assms(1,2)] description_of_list [OF assms(3)]
  obtain v where v: "first_en ds = Inr v" "map_of r ''description'' = Some v"
    by auto
  show ?thesis
  proof (intro conjI impI)
    assume "ds = pre @ d # post \<and> (\<forall>x\<in>set pre. \<not> is_en x) \<and> is_en d"
    with v(1) have "py_get d ''value'' = Inr v"
      using first_en_first [of pre d post v] by simp
    with v(2) show "\<exists>v. py_get d ''value'' = Inr v \<and> map_of r ''description'' = Some v"
      by blast
  next
    assume "\<forall>x\<in>set ds. \<not> is_en x"
    with v show "map_of r ''description'' = Some (JStr [])"
      using first_en_none [of ds v] by simp
  qed
qed

text \<open>
  Claim C10: when the first entry tagged \<open>en\<close> has no \<open>value\<close> key, the output
  \<open>description\<close> is None (null) and not the empty string, whatever comes after that entry,
  a later English entry with a value included.
\<close>

theorem description_null_without_value:
  assumes "transform_record seed now vuln_item = Inr r"
      and "py_index vuln_item ''cve'' = Inr cve"
      and "py_get_d cve ''descriptions'' (JArr []) = Inr (JArr (pre @ JObj kvs # post))"
      and "\<forall>x\<in>set pre. \<not> is_en x"
      and "is_en (JObj kvs)"
      and "map_of kvs ''value'' = None"
  shows "map_of r ''description'' = Some JNull \<and> map_of r ''description'' \<noteq> Some (JStr [])"
proof -
  from transform_record_description [OF assms(1,2)] description_of_list [OF assms(3)]
  obtain v where v: "first_en (pre @ JObj kvs # post) = Inr v" "map_of r ''description'' = Some v"
    by auto
  from first_en_first [OF assms(4,5) v(1)] assms(6) have "v = JNull"
    by (simp add: py_get_def)
  with v(2) show ?thesis by simp
qed


section \<open>The scoring fields\<close>




lemmas eval_defs =
  transform_record_def description_of_def metrics_of_def flatten_metric_def
  weaknesses_of_def references_of_def py_get_def set_add_def py_eq_def
  ident_keys_def cvss_keys_def metric_keys_def

lemma sample_item_ok: "\<exists>r. transform_record seed now sample_item = Inr r"
  unfolding transform_record_ok
  by (simp add: sample_item_def sample_cve_def eval_defs)

lemma bare_item_ok: "\<exists>r. transform_record seed now bare_item = Inr r"
  unfolding transform_record_ok
  by (simp add: bare_item_def bare_cve_def eval_defs)

lemma valueless_item_ok: "\<exists>r. transform_record seed now valueless_item = Inr r"
  unfolding transform_record_ok
  by (simp add: valueless_item_def valueless_cve_def eval_defs)

section \<open>The properties on sample records\<close>

text \<open>
  Claim C2 on two records: one whose second description is the first English one, and
  one with a Spanish description only.
\<close>

theorem description_is_first_english_witness:
  "(\<exists>r. transform_record [] ''t'' sample_item = Inr r
        \<and> map_of r ''description'' = Some (JStr ''desc-en''))
   \<and> (\<exists>r. transform_record [] ''t'' bare_item = Inr r
        \<and> map_of r ''description'' = Some (JStr []))"
proof -
  obtain r1 where r1: "transform_record [] ''t'' sample_item = Inr r1"
    using sample_item_ok by blast
  obtain r2 where r2: "transform_record [] ''t'' bare_item = Inr r2"
    using bare_item_ok by blast
  have "map_of r1 ''description'' = Some (JStr ''desc-en'')"
    using description_is_first_english [OF r1,
        of sample_cve
           "[JObj [(''lang'', JStr ''fr''), (''value'', JStr ''desc-fr'')],
             JObj [(''lang'', JStr ''en''), (''value'', JStr ''desc-en'')]]"
           "[JObj [(''lang'', JStr ''fr''), (''value'', JStr ''desc-fr'')]]"
           "JObj [(''lang'', JStr ''en''), (''value'', JStr ''desc-en'')]" "[]"]
    by (simp add: sample_item_def sample_cve_def is_en_def py_get_def)
  moreover have "map_of r2 ''description'' = Some (JStr [])"
    using description_is_first_english [OF r2,
        of bare_cve "[JObj [(''lang'', JStr ''es''), (''value'', JStr ''desc-es'')]]"]
    by (simp add: bare_item_def bare_cve_def is_en_def py_get_def)
  ultimately show ?thesis using r1 r2 by blast
qed

text \<open>
  Claim C10 on a record whose first English description has no value and whose second
  one has.
\<close>

theorem description_null_without_value_witness:
  "\<exists>r. transform_record [] ''t'' valueless_item = Inr r
       \<and> map_of r ''description'' = Some JNull"
proof -
  obtain r where r: "transform_record [] ''t'' valueless_item = Inr r"
    using valueless_item_ok by blast
  have "map_of r ''description'' = Some JNull"
    using description_null_without_value [OF r,
        of valueless_cve "[]" "[(''lang'', JStr ''en'')]"
           "[JObj [(''lang'', JStr ''en''), (''value'', JStr ''later'')]]"]
    by (simp add: valueless_item_def valueless_cve_def is_en_def py_get_def)
  with r show ?thesis by blast
qed


section \<open>The references\<close>

lemma py_eq_refl [simp]: "py_eq a a"
  by (simp add: py_eq_def split: option.splits)

lemma py_eq_sym: "py_eq a b \<Longrightarrow> py_eq b a"
  by (auto simp: py_eq_def split: option.splits)

lemma py_distinct_iff:
  "py_distinct xs \<longleftrightarrow> distinct xs \<and> (\<forall>x\<in>set xs. \<forall>y\<in>set xs. py_eq x y \<longrightarrow> x = y)"
proof (induction xs)
  case Nil
  show ?case by simp
next
  case (Cons a xs)
  show ?case
  proof
    assume l: "py_distinct (a # xs)"
    then have na: "\<forall>e\<in>set xs. \<not> py_eq a e" and d: "py_distinct xs"
      by (simp_all add: list_ex_iff)
    from na have "a \<notin> set xs" using py_eq_refl by blast
    moreover from na have "\<forall>e\<in>set xs. \<not> py_eq e a" using py_eq_sym by blast
    ultimately show "distinct (a # xs) \<and> (\<forall>x\<in>set (a # xs). \<forall>y\<in>set (a # xs). py_eq x y \<longrightarrow> x = y)"
      using na d Cons.IH by auto
  next
    assume r: "distinct (a # xs) \<and> (\<forall>x\<in>set (a # xs). \<forall>y\<in>set (a # xs). py_eq x y \<longrightarrow> x = y)"
    then have "\<forall>e\<in>set xs. \<not> py_eq a e" by auto
    moreover from r have "py_distinct xs" using Cons.IH by auto
    ultimately show "py_distinct (a # xs)" by (simp add: list_ex_iff)
  qed
qed

lemma py_distinct_mset: "mset xs = mset ys \<Longrightarrow> py_distinct xs = py_distinct ys"
  unfolding py_distinct_iff
  using mset_eq_setD [of xs ys] mset_eq_imp_distinct_iff [of xs ys] by simp

lemma py_distinct_set_add: "py_distinct s \<Longrightarrow> py_distinct (set_add s u)"
proof -
  assume d: "py_distinct s"
  show ?thesis
  proof (cases "list_ex (\<lambda>e. py_eq e u) s")
    case True
    with d show ?thesis by (simp add: set_add_def)
  next
    case False
    then have n: "\<forall>e\<in>set s. \<not> py_eq e u" by (simp add: list_ex_iff)
    then have "u \<notin> set s" using py_eq_refl by blast
    with d n have "py_distinct (s @ [u])"
      unfolding py_distinct_iff using py_eq_sym by auto
    with False show ?thesis by (simp add: set_add_def)
  qed
qed

lemma set_set_add: "set (set_add s u) \<subseteq> insert u (set s) \<and> set s \<subseteq> set (set_add s u)
    \<and> (\<exists>e\<in>set (set_add s u). py_eq e u)"
  by (auto simp: set_add_def list_ex_iff)

lemma collect_urls_distinct:
  "collect_urls s refs = Inr s' \<Longrightarrow> py_distinct s \<Longrightarrow> py_distinct s'"
proof (induction refs arbitrary: s)
  case Nil
  then show ?case by simp
next
  case (Cons a refs)
  from Cons.prems(1) obtain u where u: "py_get a ''url'' = Inr u"
    by (auto simp: ebind_Inr)
  show ?case
  proof (cases "truthy u")
    case True
    with Cons.prems(1) u have "collect_urls (set_add s u) refs = Inr s'"
      by (simp split: if_splits)
    then show ?thesis using Cons.IH py_distinct_set_add [OF Cons.prems(2)] by blast
  next
    case False
    with Cons.prems(1) u have "collect_urls s refs = Inr s'" by simp
    then show ?thesis using Cons.IH Cons.prems(2) by blast
  qed
qed

lemma collect_urls_sound:
  "collect_urls s refs = Inr s' \<Longrightarrow> x \<in> set s' \<Longrightarrow>
     x \<in> set s \<or> (truthy x \<and> (\<exists>ref\<in>set refs. py_get ref ''url'' = Inr x))"
proof (induction refs arbitrary: s)
  case Nil
  then show ?case by simp
next
  case (Cons a refs)
  from Cons.prems(1) obtain u where u: "py_get a ''url'' = Inr u"
    by (auto simp: ebind_Inr)
  show ?case
  proof (cases "truthy u")
    case True
    with Cons.prems(1) u have "collect_urls (set_add s u) refs = Inr s'"
      by (simp split: if_splits)
    from Cons.IH [OF this Cons.prems(2)] show ?thesis
      using set_set_add [of s u] True u by auto
  next
    case False
    with Cons.prems(1) u have "collect_urls s refs = Inr s'" by simp
    from Cons.IH [OF this Cons.prems(2)] show ?thesis by auto
  qed
qed

lemma collect_urls_mono:
  "collect_urls s refs = Inr s' \<Longrightarrow> set s \<subseteq> set s'"
proof (induction refs arbitrary: s)
  case Nil
  then show ?case by simp
next
  case (Cons a refs)
  from Cons.prems(1) obtain u where u: "py_get a ''url'' = Inr u"
    by (auto simp: ebind_Inr)
  show ?case
  proof (cases "truthy u")
    case True
    with Cons.prems(1) u have "collect_urls (set_add s u) refs = Inr s'"
      by (simp split: if_splits)
    from Cons.IH [OF this] show ?thesis using set_set_add [of s u] by blast
  next
    case False
    with Cons.prems(1) u have "collect_urls s refs = Inr s'" by simp
    from Cons.IH [OF this] show ?thesis .
  qed
qed

lemma collect_urls_complete:
  "collect_urls s refs = Inr s' \<Longrightarrow> ref \<in> set refs \<Longrightarrow> py_get ref ''url'' = Inr x \<Longrightarrow>
     truthy x \<Longrightarrow> \<exists>e\<in>set s'. py_eq e x"
proof (induction refs arbitrary: s)
  case Nil
  then show ?case by simp
next
  case (Cons a refs)
  from Cons.prems(1) obtain u where u: "py_get a ''url'' = Inr u"
    by (auto simp: ebind_Inr)
  show ?case
  proof (cases "truthy u")
    case True
    with Cons.prems(1) u have c: "collect_urls (set_add s u) refs = Inr s'"
      by (simp split: if_splits)
    show ?thesis
    proof (cases "ref = a")
      case True
      with u Cons.prems(3) have "x = u" by simp
      then show ?thesis using set_set_add [of s u] collect_urls_mono [OF c] by blast
    next
      case False
      with Cons.prems(2) have "ref \<in> set refs" by simp
      from Cons.IH [OF c this Cons.prems(3,4)] show ?thesis .
    qed
  next
    case False
    with Cons.prems(1) u have c: "collect_urls s refs = Inr s'" by simp
    from False u Cons.prems(3,4) have "ref \<noteq> a" by auto
    with Cons.prems(2) have "ref \<in> set refs" by simp
    from Cons.IH [OF c this Cons.prems(3,4)] show ?thesis .
  qed
qed

lemma collect_urls_skip:
  "py_get ref ''url'' = Inr v \<Longrightarrow> \<not> truthy v \<Longrightarrow>
     collect_urls s (pre @ ref # post) = collect_urls s (pre @ post)"
proof (induction pre arbitrary: s)
  case Nil
  then show ?case by simp
next
  case (Cons a pre)
  show ?case
  proof (cases "py_get a ''url''")
    case (Inl e)
    then show ?thesis by simp
  next
    case (Inr u)
    then show ?thesis using Cons.IH [OF Cons.prems] by simp
  qed
qed

lemma mset_set_to_list: "mset (set_to_list seed s) = mset s"
proof (induction seed s rule: set_to_list.induct)
  case (1 ks)
  show ?case by simp
next
  case (2 v va)
  show ?case by simp
next
  case (3 k ks v va)
  let ?s = "v # va"
  let ?i = "k mod length ?s"
  have i: "?i < length ?s" by simp
  have "mset ?s = mset (take ?i ?s @ ?s ! ?i # drop (Suc ?i) ?s)"
    using id_take_nth_drop [OF i] by simp
  also have "\<dots> = add_mset (?s ! ?i) (mset (take ?i ?s @ drop (Suc ?i) ?s))"
    by simp
  finally show ?case using 3 by (simp add: Let_def)
qed

lemma references_of_list:
  "py_get_d cve ''references'' (JArr []) = Inr (JArr refs) \<Longrightarrow>
     references_of [] cve = collect_urls [] refs"
  by (simp add: references_of_def ebind_def split: sum.splits)

lemma record_references:
  assumes "get_fields cve ident_keys = Inr ident" and "mt = [] \<or> map fst mt = scoring_keys"
  shows "map_of (ident @ [(''description'', d)] @ mt @
           [(''weaknesses'', w), (''references'', rs), (''collected_at'', t)]) ''references''
         = Some rs"
proof -
  have 1: "''references'' \<notin> fst ` set ident"
    using get_fields_keys [OF assms(1)] by (auto simp: ident_keys_def)
  have 2: "''references'' \<notin> fst ` set mt"
  proof (cases "mt = []")
    case True
    then show ?thesis by simp
  next
    case False
    with assms(2) have "fst ` set mt = set scoring_keys" by (metis list.set_map)
    then show ?thesis using scoring_keys_fresh [of "''references''"] by blast
  qed
  have "map_of (ident @ [(''description'', d)] @ mt @
           [(''weaknesses'', w), (''references'', rs), (''collected_at'', t)]) ''references''
        = map_of ([(''description'', d)] @ mt @
           [(''weaknesses'', w), (''references'', rs), (''collected_at'', t)]) ''references''"
    using 1 by (rule map_of_append_notin)
  also have "\<dots> = map_of (mt @
           [(''weaknesses'', w), (''references'', rs), (''collected_at'', t)]) ''references''"
    by simp
  also have "\<dots> = map_of [(''weaknesses'', w), (''references'', rs), (''collected_at'', t)]
                      ''references''"
    using 2 by (rule map_of_append_notin)
  finally show ?thesis by simp
qed

lemma transform_record_references:
  assumes "transform_record seed now vuln_item = Inr r"
      and "py_index vuln_item ''cve'' = Inr cve"
  shows "\<exists>s. references_of [] cve = Inr s \<and>
             map_of r ''references'' = Some (JArr (set_to_list seed s))"
proof -
  from transform_record_InrD [OF assms(1)] assms(2) obtain d mt w s ident where
    mt: "metrics_of cve = Inr mt" and ident: "get_fields cve ident_keys = Inr ident"
    and s: "references_of [] cve = Inr s"
    and r: "r = ident @ [(''description'', d)] @ mt @
         [(''weaknesses'', JArr w), (''references'', JArr (set_to_list seed s)),
          (''collected_at'', JStr now)]"
    by auto
  show ?thesis
    unfolding r using s record_references [OF ident metrics_of_cases [OF mt]] by blast
qed

text \<open>
  Claim C4: for every source record that has an output record, the output \<open>references\<close>
  is a list without duplicates (no two members are even equal in Python's sense), each
  member is the truthy \<open>url\<close> of some reference entry, so that an entry without a URL
  contributes nothing, and each entry that has a truthy URL is represented. The order is
  not significant: under any other hash seed the record has the same references, listed
  in some order.
\<close>

theorem references_deduplicated:
  assumes "transform_record seed now vuln_item = Inr r"
      and "py_index vuln_item ''cve'' = Inr cve"
      and "py_get_d cve ''references'' (JArr []) = Inr (JArr refs)"
  shows "\<exists>us. map_of r ''references'' = Some (JArr us)
           \<and> distinct us \<and> py_distinct us
           \<and> (\<forall>u\<in>set us. truthy u \<and> (\<exists>ref\<in>set refs. py_get ref ''url'' = Inr u))
           \<and> (\<forall>ref\<in>set refs. \<forall>u. py_get ref ''url'' = Inr u \<and> truthy u
                  \<longrightarrow> (\<exists>e\<in>set us. py_eq e u))
           \<and> (\<forall>seed'. \<exists>r' us'. transform_record seed' now vuln_item = Inr r'
                  \<and> map_of r' ''references'' = Some (JArr us') \<and> mset us' = mset us)"
proof -
  from transform_record_references [OF assms(1,2)] references_of_list [OF assms(3)]
  obtain s where s: "collect_urls [] refs = Inr s"
    and r: "map_of r ''references'' = Some (JArr (set_to_list seed s))"
    by auto
  let ?us = "set_to_list seed s"
  have m: "mset ?us = mset s" by (rule mset_set_to_list)
  then have set: "set ?us = set s" by (rule mset_eq_setD)
  have pd: "py_distinct ?us"
    using collect_urls_distinct [OF s] py_distinct_mset [OF m] by simp
  then have d: "distinct ?us" by (simp add: py_distinct_iff)
  have sound: "\<forall>u\<in>set ?us. truthy u \<and> (\<exists>ref\<in>set refs. py_get ref ''url'' = Inr u)"
    using collect_urls_sound [OF s] set by auto
  have complete: "\<forall>ref\<in>set refs. \<forall>u. py_get ref ''url'' = Inr u \<and> truthy u
                  \<longrightarrow> (\<exists>e\<in>set ?us. py_eq e u)"
    using collect_urls_complete [OF s] set by blast
  have reseed: "\<forall>seed'. \<exists>r' us'. transform_record seed' now vuln_item = Inr r'
                  \<and> map_of r' ''references'' = Some (JArr us') \<and> mset us' = mset ?us"
  proof
    fix seed'
    from assms(1) obtain r' where r': "transform_record seed' now vuln_item = Inr r'"
      using transform_record_ok [of seed now vuln_item] transform_record_ok [of seed' now vuln_item]
      by blast
    from transform_record_references [OF r' assms(2)] references_of_list [OF assms(3)] s
    have "map_of r' ''references'' = Some (JArr (set_to_list seed' s))" by simp
    moreover have "mset (set_to_list seed' s) = mset ?us"
      using m mset_set_to_list [of seed' s] by simp
    ultimately show "\<exists>r' us'. transform_record seed' now vuln_item = Inr r'
                  \<and> map_of r' ''references'' = Some (JArr us') \<and> mset us' = mset ?us"
      using r' by blast
  qed
  from r d pd sound complete reseed show ?thesis by blast
qed

text \<open>Claim C4 on the sample record, whose four references hold two distinct URLs.\<close>

theorem references_deduplicated_witness:
  "\<exists>r us. transform_record [1] ''t'' sample_item = Inr r
       \<and> map_of r ''references'' = Some (JArr us) \<and> distinct us \<and> py_distinct us
       \<and> (\<forall>u\<in>set us. truthy u)"
proof -
  obtain r where r: "transform_record [1] ''t'' sample_item = Inr r"
    using sample_item_ok by blast
  have c: "py_index sample_item ''cve'' = Inr sample_cve"
    by (simp add: sample_item_def)
  have refs: "py_get_d sample_cve ''references'' (JArr [])
      = Inr (JArr [JObj [(''url'', JStr ''http://a'')], JObj [(''url'', JStr ''http://a'')],
                   JObj [], JObj [(''url'', JStr ''http://b'')]])"
    by (simp add: sample_cve_def)
  from references_deduplicated [OF r c refs] r show ?thesis by blast
qed

lemma empty_url_item_ok: "\<exists>r. transform_record seed now empty_url_item = Inr r"
  unfolding transform_record_ok
  by (simp add: empty_url_item_def empty_url_cve_def eval_defs)

lemma collect_urls_truthy:
  "collect_urls [] refs = Inr s \<Longrightarrow> \<forall>u\<in>set s. truthy u"
  using collect_urls_sound [of "[]" refs s] by auto

text \<open>
  Claim C8: a reference entry whose \<open>url\<close> is present but falsy (the empty string, None,
  zero, False, an empty list or dict) is left out of the output \<open>references\<close>: the set
  built is the one built from the list without that entry, and the one built from the
  list in which that entry is replaced by any entry that has no \<open>url\<close> key at all.
\<close>

theorem falsy_url_excluded:
  assumes "transform_record seed now vuln_item = Inr r"
      and "py_index vuln_item ''cve'' = Inr cve"
      and "py_get_d cve ''references'' (JArr []) = Inr (JArr (pre @ JObj kvs # post))"
      and "map_of kvs ''url'' = Some v"
      and "\<not> truthy v"
  shows "\<exists>s. map_of r ''references'' = Some (JArr (set_to_list seed s))
           \<and> v \<notin> set (set_to_list seed s)
           \<and> collect_urls [] (pre @ post) = Inr s
           \<and> (\<forall>kvs'. map_of kvs' ''url'' = None
                  \<longrightarrow> collect_urls [] (pre @ JObj kvs' # post) = Inr s)"
proof -
  from transform_record_references [OF assms(1,2)] references_of_list [OF assms(3)]
  obtain s where s: "collect_urls [] (pre @ JObj kvs # post) = Inr s"
    and r: "map_of r ''references'' = Some (JArr (set_to_list seed s))"
    by auto
  have v: "py_get (JObj kvs) ''url'' = Inr v"
    using assms(4) by (simp add: py_get_def)
  from s collect_urls_skip [OF v assms(5)] have drop: "collect_urls [] (pre @ post) = Inr s"
    by simp
  have nourl: "\<forall>kvs'. map_of kvs' ''url'' = None
                  \<longrightarrow> collect_urls [] (pre @ JObj kvs' # post) = Inr s"
  proof (intro allI impI)
    fix kvs' :: dict
    assume "map_of kvs' ''url'' = None"
    then have "py_get (JObj kvs') ''url'' = Inr JNull" by (simp add: py_get_def)
    from collect_urls_skip [OF this, of "[]" pre post] drop
    show "collect_urls [] (pre @ JObj kvs' # post) = Inr s" by simp
  qed
  have "set (set_to_list seed s) = set s"
    using mset_set_to_list [of seed s] by (rule mset_eq_setD)
  with collect_urls_truthy [OF s] assms(5) have "v \<notin> set (set_to_list seed s)" by blast
  with r drop nourl show ?thesis by blast
qed

text \<open>Claim C8 on a record whose second reference has the empty string as URL.\<close>

theorem falsy_url_excluded_witness:
  "\<exists>r s. transform_record [] ''t'' empty_url_item = Inr r
       \<and> map_of r ''references'' = Some (JArr s) \<and> JStr [] \<notin> set s
       \<and> collect_urls [] [JObj [(''url'', JStr ''http://a'')], JObj [],
                           JObj [(''url'', JStr ''http://b'')]] = Inr s"
proof -
  obtain r where r: "transform_record [] ''t'' empty_url_item = Inr r"
    using empty_url_item_ok by blast
  have c: "py_index empty_url_item ''cve'' = Inr empty_url_cve"
    by (simp add: empty_url_item_def)
  have refs: "py_get_d empty_url_cve ''references'' (JArr [])
      = Inr (JArr ([JObj [(''url'', JStr ''http://a'')]] @ JObj [(''url'', JStr [])]
                   # [JObj [(''url'', JStr ''http://b'')]]))"
    by (simp add: empty_url_cve_def)
  have m: "map_of [(''url'', JStr [])] ''url'' = Some (JStr [])" by simp
  have f: "\<not> truthy (JStr [])" by simp
  from falsy_url_excluded [OF r c refs m f] obtain s where
    s: "map_of r ''references'' = Some (JArr (set_to_list [] s))"
       "JStr [] \<notin> set (set_to_list [] s)"
       "\<forall>kvs'. map_of kvs' ''url'' = None
           \<longrightarrow> collect_urls [] ([JObj [(''url'', JStr ''http://a'')]] @ JObj kvs'
                   # [JObj [(''url'', JStr ''http://b'')]]) = Inr s"
    by blast
  from s(3) have "collect_urls [] ([JObj [(''url'', JStr ''http://a'')]] @ JObj []
                   # [JObj [(''url'', JStr ''http://b'')]]) = Inr s"
    by simp
  with r s(1,2) show ?thesis by auto
qed


section \<open>The stores\<close>

text \<open>
  Claim C5 says that a payload that is neither a dict nor a list is rejected with the
  raw collection left as it was. \<open>save_to_mongo\<close> calls \<open>delete_many\<close> before it looks
  at the type of the payload: on the JSON string \<open>"error"\<close>, which is truthy and so reaches
  \<open>save_to_mongo\<close> from \<open>main\<close>, the error is logged and nothing is inserted, but the
  previous document is gone.
\<close>

theorem save_rejected_payload_clears_store:
  "collection (save_to_mongo working_env (JStr ''error'') old_raw) = []
   \<and> collection (save_to_mongo working_env (JStr ''error'') old_raw) \<noteq> old_raw
   \<and> logged (save_to_mongo working_env (JStr ''error'') old_raw)
       = [(INFO, ConnectingToMongo), (INFO, ClearingExisting), (ERROR, FormatNotSupported)]
   \<and> truthy (JStr ''error'')
   \<and> collection (main working_env (Response 200 (Some (JStr ''error''))) old_raw) = []"
  by (simp add: save_to_mongo_def main_def fetch_cve_data_def working_env_def unset_def old_raw_def)

lemma load_raw_missing:
  assumes "find_one raw_collection = None
           \<or> (\<exists>raw_data. find_one raw_collection = Some raw_data
                 \<and> map_of raw_data ''vulnerabilities'' = None)"
  shows "load_raw raw_collection = Inl ValueError"
  using assms by (auto simp: load_raw_def)

text \<open>
  Claim C6: when \<open>find_one\<close> yields no document, or yields one without a
  \<open>vulnerabilities\<close> key, the run ends with an exception and writes no normalized
  document: the normalized collection is left as it was or, when the clearing step was
  reached and succeeded, empty. When the environment is set and the server reachable,
  the exception is the ValueError of line 63.
\<close>

theorem missing_raw_aborts:
  assumes "find_one raw_collection = None
           \<or> (\<exists>raw_data. find_one raw_collection = Some raw_data
                 \<and> map_of raw_data ''vulnerabilities'' = None)"
  shows "raised (run_transform env seed clock raw_collection old) \<noteq> None
       \<and> (collection (run_transform env seed clock raw_collection old) = old
          \<or> collection (run_transform env seed clock raw_collection old) = [])
       \<and> (\<not> unset (mongo_url env) \<and> \<not> unset (mongo_db env) \<and> server_reachable env
            \<longrightarrow> raised (run_transform env seed clock raw_collection old) = Some ValueError)"
  using load_raw_missing [OF assms]
  by (simp add: run_transform_def load_and_transform_def)

text \<open>Claim C6 on an empty raw collection and on a raw document that has an \<open>_id\<close> only.\<close>

theorem missing_raw_aborts_witness:
  "find_one [] = None
   \<and> raised (run_transform working_env [] epoch_clock [] old_raw) = Some ValueError
   \<and> collection (run_transform working_env [] epoch_clock [] old_raw) = []
   \<and> map_of [(''_id'', JInt 1)] ''vulnerabilities'' = None
   \<and> raised (run_transform working_env [] epoch_clock [ [(''_id'', JInt 1)]] old_raw)
       = Some ValueError"
proof -
  have h1: "find_one [] = None \<or> (\<exists>raw_data. find_one [] = Some raw_data
                 \<and> map_of raw_data ''vulnerabilities'' = None)"
    by (simp add: find_one_def)
  have h2: "find_one [ [(''_id'', JInt 1)]] = None
            \<or> (\<exists>raw_data. find_one [ [(''_id'', JInt 1)]] = Some raw_data
                 \<and> map_of raw_data ''vulnerabilities'' = None)"
    by (simp add: find_one_def)
  show ?thesis
    using missing_raw_aborts [OF h1, of working_env "[]" epoch_clock old_raw]
          missing_raw_aborts [OF h2, of working_env "[]" epoch_clock old_raw]
    by (simp add: find_one_def working_env_def unset_def run_transform_def load_and_transform_def load_raw_def)
qed

text \<open>
  Claim C9: when the fetch succeeds with a falsy payload, \<open>main\<close> does not call
  \<open>save_to_mongo\<close>: the raw collection keeps its contents, nothing is cleared, and the
  outcome is that of a failed fetch, ending with the same error line.
\<close>

theorem falsy_payload_skips_save:
  assumes "\<not> truthy data" and "\<not> (400 \<le> code \<and> code < 600)"
  shows "collection (main env (Response code (Some data)) old) = old
       \<and> collection (main env NoResponse old) = old
       \<and> raised (main env (Response code (Some data)) old) = raised (main env NoResponse old)
       \<and> last (logged (main env (Response code (Some data)) old)) = (ERROR, NoDataFetched)
       \<and> last (logged (main env NoResponse old)) = (ERROR, NoDataFetched)
       \<and> (INFO, ClearingExisting) \<notin> set (logged (main env (Response code (Some data)) old))"
  using assms by (simp add: main_def fetch_cve_data_def)

text \<open>Claim C9 on the empty object and on the empty list.\<close>

theorem falsy_payload_skips_save_witness:
  "\<not> truthy (JObj []) \<and> \<not> truthy (JArr [])
   \<and> collection (main working_env (Response 200 (Some (JObj []))) old_raw) = old_raw
   \<and> collection (main working_env (Response 200 (Some (JArr []))) old_raw) = old_raw
   \<and> collection (main working_env NoResponse old_raw) = old_raw"
  using falsy_payload_skips_save [of "JObj []" 200 working_env old_raw]
        falsy_payload_skips_save [of "JArr []" 200 working_env old_raw]
  by simp

section \<open>Running the transformer again\<close>

lemma ebind_Inl: "ebind x f = Inl e \<longleftrightarrow> x = Inl e \<or> (\<exists>v. x = Inr v \<and> f v = Inl e)"
  by (cases x) simp_all

lemma references_of_Inl: "references_of seed cve = Inl e \<longleftrightarrow> references_of [] cve = Inl e"
  by (simp add: references_of_seed [of seed] split: sum.splits)

lemma transform_record_Inl:
  "transform_record seed now vuln_item = Inl e \<longleftrightarrow> transform_record [] [] vuln_item = Inl e"
  unfolding transform_record_def ebind_Inl
  using references_of_ok [of seed] references_of_Inl [of seed] by simp

lemma same_field_refl: "same_field kv kv"
proof (cases kv)
  case (Pair k v)
  have "same_members v v" by (cases v) simp_all
  with Pair show ?thesis by simp
qed

lemma list_all2_same_field_refl: "list_all2 same_field xs xs"
  by (simp add: list_all2_same same_field_refl)

lemma transform_record_rerun:
  assumes "transform_record seed1 now1 vuln_item = Inr r1"
  shows "\<exists>r2. transform_record seed2 now2 vuln_item = Inr r2 \<and> same_record r1 r2"
proof -
  from assms obtain r2 where r2: "transform_record seed2 now2 vuln_item = Inr r2"
    using transform_record_ok [of seed1 now1 vuln_item]
          transform_record_ok [of seed2 now2 vuln_item] by blast
  from transform_record_InrD [OF assms] obtain cve d mt w s ident where
    c: "py_index vuln_item ''cve'' = Inr cve" "description_of cve = Inr d"
       "metrics_of cve = Inr mt" "weaknesses_of cve = Inr w"
       "references_of [] cve = Inr s" "get_fields cve ident_keys = Inr ident"
    and r1: "r1 = ident @ [(''description'', d)] @ mt @
         [(''weaknesses'', JArr w), (''references'', JArr (set_to_list seed1 s)),
          (''collected_at'', JStr now1)]"
    by blast
  from transform_record_InrD [OF r2] c have
    r2': "r2 = ident @ [(''description'', d)] @ mt @
         [(''weaknesses'', JArr w), (''references'', JArr (set_to_list seed2 s)),
          (''collected_at'', JStr now2)]"
    by auto
  have tail: "list_all2 same_field
      [(''weaknesses'', JArr w), (''references'', JArr (set_to_list seed1 s)),
       (''collected_at'', JStr now1)]
      [(''weaknesses'', JArr w), (''references'', JArr (set_to_list seed2 s)),
       (''collected_at'', JStr now2)]"
    by (simp add: mset_set_to_list)
  have "list_all2 same_field r1 r2"
    unfolding r1 r2'
    by (intro list_all2_appendI list_all2_same_field_refl tail)
  with r2 show ?thesis by (simp add: same_record_def)
qed

lemma transform_loop_rerun:
  "list_all2 same_record (fst (transform_loop seed1 clock1 i items ([], [])))
                         (fst (transform_loop seed2 clock2 i items ([], [])))
   \<and> snd (transform_loop seed1 clock1 i items ([], []))
     = snd (transform_loop seed2 clock2 i items ([], []))"
proof (induction items arbitrary: i)
  case Nil
  show ?case by simp
next
  case (Cons a items)
  show ?case
  proof (cases "transform_record seed1 (clock1 i) a")
    case (Inl e)
    then have "transform_record seed2 (clock2 i) a = Inl e"
      using transform_record_Inl [of seed1 "clock1 i" a e]
            transform_record_Inl [of seed2 "clock2 i" a e] by simp
    then show ?thesis
      using Cons.IH [of "Suc i"] Inl
            transform_loop_Cons_fail [of seed1 clock1 i a e items]
            transform_loop_Cons_fail [of seed2 clock2 i a e items]
      by (simp del: transform_loop.simps)
  next
    case (Inr r1)
    from transform_record_rerun [OF Inr, of seed2 "clock2 i"] obtain r2 where
      r2: "transform_record seed2 (clock2 i) a = Inr r2" "same_record r1 r2" by blast
    then show ?thesis
      using Cons.IH [of "Suc i"] Inr
            transform_loop_Cons_ok [of seed1 clock1 i a r1 items]
            transform_loop_Cons_ok [of seed2 clock2 i a r2 items]
      by (simp del: transform_loop.simps)
  qed
qed

lemma same_record_refl: "list_all2 same_record rs rs"
  by (simp add: list_all2_same same_record_def same_field_refl)

lemma store_transformed_rerun:
  assumes "list_all2 same_record vs1 vs2"
  shows "list_all2 same_record (collection (store_transformed env normalized vs1 lg1))
                               (collection (store_transformed env normalized vs2 lg2))
       \<and> raised (store_transformed env normalized vs1 lg1)
         = raised (store_transformed env normalized vs2 lg2)"
proof -
  from assms have "vs1 = [] \<longleftrightarrow> vs2 = []" by (auto dest: list_all2_lengthD)
  moreover have "list_all2 same_record (normalized @ vs1) (normalized @ vs2)"
    using assms same_record_refl by (intro list_all2_appendI)
  ultimately show ?thesis
    by (simp add: store_transformed_def same_record_refl)
qed

lemma transform_data_rerun:
  "list_all2 same_record (collection (transform_data env seed1 clock1 normalized v lg1))
                         (collection (transform_data env seed2 clock2 normalized v lg2))
   \<and> raised (transform_data env seed1 clock1 normalized v lg1)
     = raised (transform_data env seed2 clock2 normalized v lg2)"
proof (cases "py_iter v")
  case (Inl e)
  then show ?thesis by (simp add: transform_data_def same_record_refl)
next
  case (Inr items)
  have s1: "transform_loop seed1 clock1 0 items ([], lg1)
        = (fst (transform_loop seed1 clock1 0 items ([], [])),
           lg1 @ snd (transform_loop seed1 clock1 0 items ([], [])))"
    using transform_loop_acc [of seed1 clock1 0 items "[]" lg1] by simp
  have s2: "transform_loop seed2 clock2 0 items ([], lg2)
        = (fst (transform_loop seed2 clock2 0 items ([], [])),
           lg2 @ snd (transform_loop seed2 clock2 0 items ([], [])))"
    using transform_loop_acc [of seed2 clock2 0 items "[]" lg2] by simp
  have "list_all2 same_record (fst (transform_loop seed1 clock1 0 items ([], [])))
                              (fst (transform_loop seed2 clock2 0 items ([], [])))"
    using transform_loop_rerun [of seed1 clock1 0 items seed2 clock2] by blast
  moreover obtain L1 where "transform_data env seed1 clock1 normalized v lg1
      = store_transformed env normalized (fst (transform_loop seed1 clock1 0 items ([], []))) L1"
    using Inr s1 by (simp add: transform_data_def)
  moreover obtain L2 where "transform_data env seed2 clock2 normalized v lg2
      = store_transformed env normalized (fst (transform_loop seed2 clock2 0 items ([], []))) L2"
    using Inr s2 by (simp add: transform_data_def)
  ultimately show ?thesis
    using store_transformed_rerun [of _ _ env normalized L1 L2] by simp
qed

lemma load_and_transform_rerun:
  "list_all2 same_record
     (collection (load_and_transform env seed1 clock1 raw_collection normalized lg1))
     (collection (load_and_transform env seed2 clock2 raw_collection normalized lg2))
   \<and> raised (load_and_transform env seed1 clock1 raw_collection normalized lg1)
     = raised (load_and_transform env seed2 clock2 raw_collection normalized lg2)"
proof (cases "load_raw raw_collection")
  case (Inl e)
  then show ?thesis by (simp add: load_and_transform_def same_record_refl)
next
  case (Inr p)
  obtain v n where "p = (v, n)" by (cases p)
  with Inr show ?thesis
    using transform_data_rerun by (simp add: load_and_transform_def)
qed

text \<open>
  Claim C7: two runs on the same raw data, with different clocks and hash seeds, produce
  the same records up to \<open>collected_at\<close> (and up to the order in which the set of
  references is listed, which the specification does not count as part of the record).
  So does the loop on any sequence of entries; and when the clearing step succeeds, the
  normalized collection after a second run, started from what the first run left, holds
  the same records as after the first, and both runs end the same way.
\<close>

theorem rerun_same_records:
  assumes "delete_ok env"
  shows "list_all2 same_record
           (fst (transform_loop seed1 clock1 0 items ([], [])))
           (fst (transform_loop seed2 clock2 0 items ([], [])))
       \<and> list_all2 same_record
           (collection (run_transform env seed1 clock1 raw_collection old))
           (collection (run_transform env seed2 clock2 raw_collection
              (collection (run_transform env seed1 clock1 raw_collection old))))
       \<and> raised (run_transform env seed1 clock1 raw_collection old)
         = raised (run_transform env seed2 clock2 raw_collection
              (collection (run_transform env seed1 clock1 raw_collection old)))"
proof -
  have loop: "list_all2 same_record
           (fst (transform_loop seed1 clock1 0 items ([], [])))
           (fst (transform_loop seed2 clock2 0 items ([], [])))"
    using transform_loop_rerun [of seed1 clock1 0 items seed2 clock2] by blast
  have run: "list_all2 same_record
           (collection (run_transform env seed1 clock1 raw_collection old))
           (collection (run_transform env seed2 clock2 raw_collection
              (collection (run_transform env seed1 clock1 raw_collection old))))
       \<and> raised (run_transform env seed1 clock1 raw_collection old)
         = raised (run_transform env seed2 clock2 raw_collection
              (collection (run_transform env seed1 clock1 raw_collection old)))"
  proof (cases "unset (mongo_url env) \<or> unset (mongo_db env) \<or> \<not> server_reachable env")
    case True
    then show ?thesis by (auto simp: run_transform_def same_record_refl)
  next
    case False
    with assms show ?thesis
      using load_and_transform_rerun [of env seed1 clock1 raw_collection "[]" _ seed2 clock2]
      by (simp add: run_transform_def)
  qed
  from loop run show ?thesis by blast
qed


text \<open>
  Claim C7 on a raw document with one good and one malformed entry: both runs store one
  record.
\<close>

theorem rerun_same_records_witness:
  "delete_ok working_env
   \<and> list_all2 same_record
       (collection (run_transform working_env [] epoch_clock sample_raw []))
       (collection (run_transform working_env [1] later_clock sample_raw
          (collection (run_transform working_env [] epoch_clock sample_raw []))))
   \<and> length (collection (run_transform working_env [] epoch_clock sample_raw [])) = 1"
proof -
  have d: "delete_ok working_env" by (simp add: working_env_def)
  obtain r where r: "transform_record [] (epoch_clock 0) sample_item = Inr r"
    using sample_item_ok by blast
  have f: "transform_record [] (epoch_clock (Suc 0)) JNull = Inl TypeError"
    by (simp add: transform_record_def)
  have "collection (run_transform working_env [] epoch_clock sample_raw []) = [r]"
    using r f
    by (simp add: run_transform_def load_and_transform_def load_raw_def find_one_def
          transform_data_def store_transformed_def working_env_def unset_def sample_raw_def)
  then show ?thesis
    using rerun_same_records [OF d, of "[]" epoch_clock "[]" "[1]" later_clock sample_raw "[]"] d
    by simp
qed

end
